theory Spec2Isabelle
  imports Main "HOL-Library.Multiset"
begin

section \<open>Data model of ftpforcer.py\<close>

text \<open>
  A credential is the tuple \<^verbatim>\<open>(username, password)\<close>. Python exceptions are values
  of \<open>py_exception\<close>; a call that may raise returns \<open>py_exception + 'a\<close> with
  \<open>Inl\<close> for the raise.
\<close>

type_synonym cred = "string \<times> string"

datatype py_exception =
  ValueError | error_perm | error_temp | TimeoutError | ConnectionRefusedError
  | EOFError | TypeError | KeyboardInterrupt

text \<open>
  \<^verbatim>\<open>class FTPBruteForcer\<close>: the five attributes set by \<^verbatim>\<open>__init__\<close>.
\<close>

record forcer =
  host :: string
  port :: int
  timeout :: int
  found :: bool
  result :: "cred option"

definition init :: "string \<Rightarrow> int \<Rightarrow> int \<Rightarrow> forcer" where
  "init h p t = \<lparr>host = h, port = p, timeout = t, found = False, result = None\<rparr>"

text \<open>
  The remote target as seen through \<^verbatim>\<open>ftplib\<close>: every call of the session either
  returns (\<open>None\<close>) or raises (\<open>Some e\<close>). The answer of a call is a function of
  its arguments, as with a test double; \<open>quit\<close> takes the credentials of the session
  it closes.
\<close>

record ftplib =
  FTP :: "int \<Rightarrow> py_exception option"
  connect :: "string \<Rightarrow> int \<Rightarrow> py_exception option"
  login :: "string \<Rightarrow> string \<Rightarrow> py_exception option"
  quit :: "string \<Rightarrow> string \<Rightarrow> py_exception option"

section \<open>try\_credentials\<close>

text \<open>
  The body of the \<^verbatim>\<open>try\<close> block (lines 26--30): four calls in sequence, the first
  raise leaves the block.
\<close>

definition ftp_session :: "forcer \<Rightarrow> ftplib \<Rightarrow> string \<Rightarrow> string \<Rightarrow> py_exception + cred" where
  "ftp_session self lib username password =
     (case FTP lib (timeout self) of Some e \<Rightarrow> Inl e | None \<Rightarrow>
      (case connect lib (host self) (port self) of Some e \<Rightarrow> Inl e | None \<Rightarrow>
       (case login lib username password of Some e \<Rightarrow> Inl e | None \<Rightarrow>
        (case quit lib username password of Some e \<Rightarrow> Inl e | None \<Rightarrow>
           Inr (username, password)))))"

text \<open>
  Lines 22--32: the early \<^verbatim>\<open>return None\<close> when \<open>found\<close> is set, and the bare
  \<^verbatim>\<open>except:\<close> that turns every raise of the block into \<^verbatim>\<open>None\<close>. The result
  type keeps room for a propagated exception, which the function never uses.
\<close>

definition try_credentials ::
  "forcer \<Rightarrow> ftplib \<Rightarrow> string \<Rightarrow> string \<Rightarrow> py_exception + cred option" where
  "try_credentials self lib username password =
     (if found self then Inr None
      else (case ftp_session self lib username password of
              Inr c \<Rightarrow> Inr (Some c)
            | Inl e \<Rightarrow> Inr None))"

text \<open>Whether the four calls of the session for a pair all return.\<close>

definition session_ok :: "forcer \<Rightarrow> ftplib \<Rightarrow> cred \<Rightarrow> bool" where
  "session_ok self lib c =
     (case ftp_session self lib (fst c) (snd c) of Inr _ \<Rightarrow> True | Inl _ \<Rightarrow> False)"

section \<open>generate\_combinations\_cpu\<close>

text \<open>
  Lines 34--41. The inner loop appends one pair per password and returns from the whole
  function as soon as the list has reached \<open>max_combinations\<close>; the flag of its result
  says whether that \<^verbatim>\<open>return\<close> was taken. The check stands after the append.
\<close>

fun inner_loop :: "string \<Rightarrow> string list \<Rightarrow> int \<Rightarrow> cred list \<Rightarrow> bool \<times> cred list" where
  "inner_loop username [] max_combinations combinations = (False, combinations)"
| "inner_loop username (password # passwords) max_combinations combinations =
     (let combinations' = combinations @ [(username, password)]
      in if int (length combinations') \<ge> max_combinations then (True, combinations')
         else inner_loop username passwords max_combinations combinations')"

fun outer_loop :: "string list \<Rightarrow> string list \<Rightarrow> int \<Rightarrow> cred list \<Rightarrow> cred list" where
  "outer_loop [] passwords max_combinations combinations = combinations"
| "outer_loop (username # usernames) passwords max_combinations combinations =
     (case inner_loop username passwords max_combinations combinations of
        (True, combinations') \<Rightarrow> combinations'
      | (False, combinations') \<Rightarrow> outer_loop usernames passwords max_combinations combinations')"

definition generate_combinations_cpu :: "string list \<Rightarrow> string list \<Rightarrow> int \<Rightarrow> cred list" where
  "generate_combinations_cpu usernames passwords max_combinations =
     outer_loop usernames passwords max_combinations []"

text \<open>The default value of the parameter \<^verbatim>\<open>max_combinations\<close> (line 34).\<close>

definition default_max_combinations :: int where
  "default_max_combinations = 1000000"

section \<open>generate\_combinations\_gpu\<close>

text \<open>
  \<^verbatim>\<open>cupy\<close> is an optional import (lines 8--12): \<open>None\<close> stands for the failed
  import (\<^verbatim>\<open>GPU_AVAILABLE = False\<close>), \<open>Some cp\<close> for the library, taken as the
  function that lines 47--53 compute with it.
\<close>

type_synonym cupy = "(string list \<Rightarrow> string list \<Rightarrow> cred list) option"

definition generate_combinations_gpu :: "cupy \<Rightarrow> string list \<Rightarrow> string list \<Rightarrow> cred list" where
  "generate_combinations_gpu gpu usernames passwords =
     (case gpu of
        None \<Rightarrow> generate_combinations_cpu usernames passwords default_max_combinations
      | Some cp \<Rightarrow> cp usernames passwords)"

section \<open>The worker pool\<close>

text \<open>
  \<^verbatim>\<open>ThreadPoolExecutor(max_workers=n)\<close> raises \<^verbatim>\<open>ValueError\<close> for \<open>n \<le> 0\<close>
  (CPython, \<^verbatim>\<open>concurrent/futures/thread.py\<close>) and otherwise returns a pool.
\<close>

definition ThreadPoolExecutor :: "int \<Rightarrow> py_exception option" where
  "ThreadPoolExecutor max_workers = (if max_workers \<le> 0 then Some ValueError else None)"

text \<open>
  The thread scheduler and the network decide in which order the futures of a pool
  complete. That choice is a parameter: for the \<open>k\<close>-th pool of a search,
  \<open>as_completed sched k fs\<close> is the order in which \<^verbatim>\<open>as_completed\<close> yields the
  futures \<open>fs\<close> (a future is named by the pair it was submitted with), and
  \<open>in_flight sched k\<close> is the number of further tasks that had passed the
  \<open>found\<close> test of line 23 at the moment the coordinator wrote \<open>found\<close>. A
  scheduler is \<open>fair\<close> when every submitted future is yielded exactly once.
\<close>

record scheduler =
  as_completed :: "nat \<Rightarrow> cred list \<Rightarrow> cred list"
  in_flight :: "nat \<Rightarrow> nat"

definition fair :: "scheduler \<Rightarrow> bool" where
  "fair sched = (\<forall>k fs. mset (as_completed sched k fs) = mset fs)"

text \<open>
  The coordinator's loop over the completed futures (lines 68--81 and 109--118), on the
  futures in completion order. \<open>found\<close> is written by the coordinator only, directly
  before it returns, so every future it reads was computed under the value of \<open>found\<close>
  the loop runs with. The third component counts the futures whose result was read.
\<close>

fun completion_loop ::
  "forcer \<Rightarrow> ftplib \<Rightarrow> cred list \<Rightarrow> (py_exception + cred option) \<times> forcer \<times> nat" where
  "completion_loop self lib [] = (Inr None, self, 0)"
| "completion_loop self lib ((user, pwd) # futures) =
     (if found self then (Inr None, self, 0)
      else (case try_credentials self lib user pwd of
              Inl e \<Rightarrow> (Inl e, self, Suc 0)
            | Inr (Some r) \<Rightarrow> (Inr (Some r), self\<lparr>found := True, result := Some r\<rparr>, Suc 0)
            | Inr None \<Rightarrow>
                (case completion_loop self lib futures of
                   (r, self', n) \<Rightarrow> (r, self', Suc n))))"

text \<open>
  One \<^verbatim>\<open>with ThreadPoolExecutor(...)\<close> block: all tasks are submitted, the loop runs,
  and leaving the block waits for the tasks still queued. The third component lists the
  pairs for which a worker began the FTP session (entered the \<^verbatim>\<open>try\<close> block):
  none when \<open>found\<close> was set from the start; all of them when the loop ends without a
  success; and, after a success read as the \<open>n\<close>-th future, those \<open>n\<close> and the
  \<open>in_flight\<close> further ones, the remaining tasks returning at line 24.
\<close>

definition run_pool ::
  "forcer \<Rightarrow> ftplib \<Rightarrow> scheduler \<Rightarrow> nat \<Rightarrow> cred list
     \<Rightarrow> (py_exception + cred option) \<times> forcer \<times> cred list" where
  "run_pool self lib sched k tasks =
     (let order = as_completed sched k tasks
      in (case completion_loop self lib order of
            (r, self', n) \<Rightarrow>
              (r, self',
               if found self then []
               else if found self' then take (n + in_flight sched k) order
               else order)))"

text \<open>
  The loop writes to the object at two places, \<open>found\<close> first (lines 75 and 115),
  then \<open>result\<close> (lines 76 and 116), with no lock held; \<open>completion_loop\<close> returns
  the object after both. \<open>completion_writes\<close> follows the same loop and lists the
  value of the object after each single write, in order.
\<close>

fun completion_writes :: "forcer \<Rightarrow> ftplib \<Rightarrow> cred list \<Rightarrow> forcer list" where
  "completion_writes self lib [] = []"
| "completion_writes self lib ((user, pwd) # futures) =
     (if found self then []
      else (case try_credentials self lib user pwd of
              Inl e \<Rightarrow> []
            | Inr (Some r) \<Rightarrow>
                [self\<lparr>found := True\<rparr>, self\<lparr>found := True\<rparr>\<lparr>result := Some r\<rparr>]
            | Inr None \<Rightarrow> completion_writes self lib futures))"

text \<open>What a search did besides returning: the pools it constructed and the sessions begun.\<close>

record trace =
  pools :: nat
  attempted :: "cred list"

section \<open>brute\_force\_cpu\<close>

text \<open>
  Lines 55--84. \<^verbatim>\<open>itertools.product\<close> enumerates username-major, as \<open>List.product\<close>
  does; the pool is constructed before any task is submitted.
\<close>

definition brute_force_cpu ::
  "forcer \<Rightarrow> ftplib \<Rightarrow> scheduler \<Rightarrow> string list \<Rightarrow> string list \<Rightarrow> int
     \<Rightarrow> (py_exception + cred option) \<times> forcer \<times> trace" where
  "brute_force_cpu self lib sched usernames passwords max_workers =
     (let combinations = List.product usernames passwords
      in (case ThreadPoolExecutor max_workers of
            Some e \<Rightarrow> (Inl e, self, \<lparr>pools = 0, attempted = []\<rparr>)
          | None \<Rightarrow>
              (case run_pool self lib sched 0 combinations of
                 (r, self', att) \<Rightarrow> (r, self', \<lparr>pools = 1, attempted = att\<rparr>))))"


section \<open>brute\_force\_hybrid\<close>

text \<open>
  \<^verbatim>\<open>range(0, total, batch_size)\<close>: a zero step raises \<^verbatim>\<open>ValueError\<close>, a negative
  step gives the empty range (the stop, \<^verbatim>\<open>total\<close>, is not negative), a positive one counts up.
\<close>

function range_from :: "nat \<Rightarrow> nat \<Rightarrow> nat \<Rightarrow> nat list" where
  "range_from i stop step =
     (if i < stop \<and> 0 < step then i # range_from (i + step) stop step else [])"
  by pat_completeness auto
termination
  by (relation "measure (\<lambda>(i, stop, step). stop - i)") auto

declare range_from.simps [simp del]

definition py_range :: "nat \<Rightarrow> int \<Rightarrow> py_exception + nat list" where
  "py_range stop step =
     (if step = 0 then Inl ValueError
      else if step < 0 then Inr []
      else Inr (range_from 0 stop (nat step)))"

text \<open>The slices \<^verbatim>\<open>combinations[i:i+batch_size]\<close> of lines 99 and 103, in loop order.\<close>

definition batches :: "cred list \<Rightarrow> int \<Rightarrow> py_exception + cred list list" where
  "batches combinations batch_size =
     (case py_range (length combinations) batch_size of
        Inl e \<Rightarrow> Inl e
      | Inr starts \<Rightarrow> Inr (map (\<lambda>i. take (nat batch_size) (drop i combinations)) starts))"

text \<open>
  The body of the \<^verbatim>\<open>for\<close> loop (lines 100--121), one pool per batch; \<open>k\<close> numbers
  the pools.
\<close>

fun hybrid_loop ::
  "forcer \<Rightarrow> ftplib \<Rightarrow> scheduler \<Rightarrow> int \<Rightarrow> nat \<Rightarrow> cred list list
     \<Rightarrow> (py_exception + cred option) \<times> forcer \<times> trace" where
  "hybrid_loop self lib sched max_workers k [] =
     (Inr None, self, \<lparr>pools = 0, attempted = []\<rparr>)"
| "hybrid_loop self lib sched max_workers k (batch # rest) =
     (if found self then (Inr None, self, \<lparr>pools = 0, attempted = []\<rparr>)
      else (case ThreadPoolExecutor max_workers of
              Some e \<Rightarrow> (Inl e, self, \<lparr>pools = 0, attempted = []\<rparr>)
            | None \<Rightarrow>
                (case run_pool self lib sched k batch of
                   (r, self', att) \<Rightarrow>
                     if r = Inr None then
                       (case hybrid_loop self' lib sched max_workers (Suc k) rest of
                          (r', self'', tr) \<Rightarrow>
                            (r', self'',
                             \<lparr>pools = Suc (pools tr), attempted = att @ attempted tr\<rparr>))
                     else (r, self', \<lparr>pools = 1, attempted = att\<rparr>))))"

text \<open>
  Lines 86--124. The CPU builder is called without its third argument, so with the
  default \<open>max_combinations\<close>.
\<close>

definition hybrid_combinations :: "cupy \<Rightarrow> string list \<Rightarrow> string list \<Rightarrow> cred list" where
  "hybrid_combinations gpu usernames passwords =
     (if gpu \<noteq> None then generate_combinations_gpu gpu usernames passwords
      else generate_combinations_cpu usernames passwords default_max_combinations)"

definition brute_force_hybrid ::
  "forcer \<Rightarrow> ftplib \<Rightarrow> scheduler \<Rightarrow> cupy \<Rightarrow> string list \<Rightarrow> string list \<Rightarrow> int \<Rightarrow> int
     \<Rightarrow> (py_exception + cred option) \<times> forcer \<times> trace" where
  "brute_force_hybrid self lib sched gpu usernames passwords batch_size max_workers =
     (let combinations = hybrid_combinations gpu usernames passwords
      in (case batches combinations batch_size of
            Inl e \<Rightarrow> (Inl e, self, \<lparr>pools = 0, attempted = []\<rparr>)
          | Inr bs \<Rightarrow> hybrid_loop self lib sched max_workers 0 bs))"

text \<open>
  The values the object takes during a batched search, one per write: those of the pool of
  each batch the loop comes to.
\<close>

fun hybrid_loop_writes ::
  "forcer \<Rightarrow> ftplib \<Rightarrow> scheduler \<Rightarrow> int \<Rightarrow> nat \<Rightarrow> cred list list \<Rightarrow> forcer list" where
  "hybrid_loop_writes self lib sched max_workers k [] = []"
| "hybrid_loop_writes self lib sched max_workers k (batch # rest) =
     (if found self then []
      else (case ThreadPoolExecutor max_workers of
              Some e \<Rightarrow> []
            | None \<Rightarrow>
                completion_writes self lib (as_completed sched k batch) @
                (case run_pool self lib sched k batch of
                   (r, self', att) \<Rightarrow>
                     if r = Inr None
                     then hybrid_loop_writes self' lib sched max_workers (Suc k) rest
                     else [])))"

definition brute_force_hybrid_writes ::
  "forcer \<Rightarrow> ftplib \<Rightarrow> scheduler \<Rightarrow> cupy \<Rightarrow> string list \<Rightarrow> string list \<Rightarrow> int \<Rightarrow> int
     \<Rightarrow> forcer list" where
  "brute_force_hybrid_writes self lib sched gpu usernames passwords batch_size max_workers =
     (let combinations = hybrid_combinations gpu usernames passwords
      in (case batches combinations batch_size of
            Inl e \<Rightarrow> []
          | Inr bs \<Rightarrow> hybrid_loop_writes self lib sched max_workers 0 bs))"

text \<open>
  The order in which the batched search comes to read its futures when nothing stops it:
  batch after batch, each batch in the completion order of its pool.
\<close>

fun hybrid_order :: "scheduler \<Rightarrow> nat \<Rightarrow> cred list list \<Rightarrow> cred list" where
  "hybrid_order sched k [] = []"
| "hybrid_order sched k (batch # rest) =
     as_completed sched k batch @ hybrid_order sched (Suc k) rest"

definition hybrid_completion_order ::
  "scheduler \<Rightarrow> cupy \<Rightarrow> string list \<Rightarrow> string list \<Rightarrow> int \<Rightarrow> cred list" where
  "hybrid_completion_order sched gpu usernames passwords batch_size =
     (case batches (hybrid_combinations gpu usernames passwords) batch_size of
        Inl e \<Rightarrow> []
      | Inr bs \<Rightarrow> hybrid_order sched 0 bs)"

text \<open>
  The pairs of all the slices the loop takes, in loop order (none when \<^verbatim>\<open>range\<close>
  raises).
\<close>

definition batched_pairs :: "cupy \<Rightarrow> string list \<Rightarrow> string list \<Rightarrow> int \<Rightarrow> cred list" where
  "batched_pairs gpu usernames passwords batch_size =
     (case batches (hybrid_combinations gpu usernames passwords) batch_size of
        Inl e \<Rightarrow> []
      | Inr bs \<Rightarrow> concat bs)"

section \<open>States a forcer object can reach\<close>



section \<open>Test doubles\<close>

text \<open>
  Concrete targets and schedules for the examples: a target whose \<^verbatim>\<open>login\<close> accepts
  exactly one pair, one that rejects every pair, one that accepts every pair, one whose
  \<^verbatim>\<open>login\<close> raises a given exception for every pair but one; a
  schedule that completes the tasks in submission order with none in flight, and one that
  completes them in reverse order with \<open>k\<close> in flight in pool \<open>k\<close>.
\<close>

definition accepts_only :: "cred \<Rightarrow> ftplib" where
  "accepts_only c =
     \<lparr>FTP = \<lambda>t. None, connect = \<lambda>h p. None,
      login = \<lambda>u p. if (u, p) = c then None else Some error_perm,
      quit = \<lambda>u p. None\<rparr>"

definition rejects_all :: ftplib where
  "rejects_all =
     \<lparr>FTP = \<lambda>t. None, connect = \<lambda>h p. None,
      login = \<lambda>u p. Some error_perm, quit = \<lambda>u p. None\<rparr>"


definition faults_except :: "py_exception \<Rightarrow> cred \<Rightarrow> ftplib" where
  "faults_except e c =
     \<lparr>FTP = \<lambda>t. None, connect = \<lambda>h p. None,
      login = \<lambda>u p. if (u, p) = c then None else Some e,
      quit = \<lambda>u p. None\<rparr>"

definition in_order :: scheduler where
  "in_order = \<lparr>as_completed = \<lambda>k fs. fs, in_flight = \<lambda>k. 0\<rparr>"

definition reversed :: scheduler where
  "reversed = \<lparr>as_completed = \<lambda>k fs. rev fs, in_flight = \<lambda>k. k\<rparr>"

section \<open>The combination builder, characterised\<close>

lemma inner_loop_take:
  assumes "length acc < n" and "n = nat (max 1 m)"
  shows "inner_loop u ps m acc =
           (n \<le> length acc + length ps, take n (acc @ map (Pair u) ps))"
  using assms(1)
proof (induction ps arbitrary: acc)
  case Nil
  then show ?case by simp
next
  case (Cons p ps)
  show ?case
  proof (cases "Suc (length acc) = n")
    case True
    then have n: "n = Suc (length acc)" by simp
    then have "m \<le> int (Suc (length acc))" using assms(2) by linarith
    then show ?thesis by (simp add: n)
  next
    case False
    with Cons.prems have lt: "length (acc @ [(u, p)]) < n" by simp
    then have "\<not> m \<le> int (Suc (length acc))" using assms(2) by simp
    with Cons.IH [OF lt] show ?thesis by simp
  qed
qed

lemma outer_loop_take:
  assumes "n = nat (max 1 m)"
  shows "length acc < n \<Longrightarrow> outer_loop us ps m acc = take n (acc @ List.product us ps)"
proof (induction us arbitrary: acc)
  case Nil
  then show ?case by simp
next
  case (Cons u us)
  show ?case
  proof (cases "n \<le> length acc + length ps")
    case True
    with Cons.prems show ?thesis
      by (simp add: inner_loop_take [OF Cons.prems assms])
  next
    case False
    then have "length (acc @ map (Pair u) ps) < n" by simp
    from Cons.IH [OF this] False show ?thesis
      by (simp add: inner_loop_take [OF Cons.prems assms])
  qed
qed

lemma generate_combinations_cpu_take:
  "generate_combinations_cpu us ps m = take (nat (max 1 m)) (List.product us ps)"
  unfolding generate_combinations_cpu_def
  by (subst outer_loop_take [where n = "nat (max 1 m)"]) simp_all

section \<open>Facts about the attempt and the pool\<close>

lemma ftp_session_Inr: "ftp_session self lib u p = Inr c \<Longrightarrow> c = (u, p)"
  by (auto simp: ftp_session_def split: option.splits)

lemma try_credentials_eq:
  "try_credentials self lib u p =
     Inr (if \<not> found self \<and> session_ok self lib (u, p) then Some (u, p) else None)"
  by (auto simp: try_credentials_def session_ok_def split: sum.splits dest: ftp_session_Inr)

lemma completion_loop_found:
  "found self \<Longrightarrow> completion_loop self lib fs = (Inr None, self, 0)"
  by (cases fs) auto

lemma completion_loop_find:
  "\<not> found self \<Longrightarrow>
   completion_loop self lib fs =
     (case find (session_ok self lib) fs of
        None \<Rightarrow> (Inr None, self, length fs)
      | Some c \<Rightarrow> (Inr (Some c), self\<lparr>found := True, result := Some c\<rparr>,
                   Suc (length (takeWhile (\<lambda>c. \<not> session_ok self lib c) fs))))"
  by (induction fs) (auto simp: try_credentials_eq split: option.splits)

lemma mset_take_subseteq: "mset (take n xs) \<subseteq># mset xs"
proof -
  have "mset (take n xs @ drop n xs) = mset (take n xs) + mset (drop n xs)"
    by (rule mset_append)
  then have "mset xs = mset (take n xs) + mset (drop n xs)" by simp
  then show ?thesis by simp
qed

lemma find_unique:
  assumes "c \<in> set xs" "P c" "\<forall>x\<in>set xs. P x \<longrightarrow> x = c"
  shows "find P xs = Some c"
  using assms(1,3)
proof (induction xs)
  case Nil
  then show ?case by simp
next
  case (Cons x xs)
  show ?case
  proof (cases "P x")
    case True
    with Cons.prems(2) have "x = c" by simp
    with True show ?thesis by simp
  next
    case False
    with assms(2) have "x \<noteq> c" by blast
    with Cons.prems have "c \<in> set xs" "\<forall>x\<in>set xs. P x \<longrightarrow> x = c" by simp_all
    with Cons.IH False show ?thesis by simp
  qed
qed

lemma fair_mset: "fair sched \<Longrightarrow> mset (as_completed sched k fs) = mset fs"
  by (simp add: fair_def)

lemma fair_set: "fair sched \<Longrightarrow> set (as_completed sched k fs) = set fs"
  using fair_mset [of sched k fs] by (rule mset_eq_setD)

lemma fair_length: "fair sched \<Longrightarrow> length (as_completed sched k fs) = length fs"
  using fair_mset [of sched k fs] by (rule mset_eq_length)

lemma run_pool_found:
  "found self \<Longrightarrow> run_pool self lib sched k tasks = (Inr None, self, [])"
  by (simp add: run_pool_def completion_loop_found)

lemma run_pool_find:
  "\<not> found self \<Longrightarrow>
   run_pool self lib sched k tasks =
     (case find (session_ok self lib) (as_completed sched k tasks) of
        None \<Rightarrow> (Inr None, self, as_completed sched k tasks)
      | Some c \<Rightarrow>
          (Inr (Some c), self\<lparr>found := True, result := Some c\<rparr>,
           take (Suc (length (takeWhile (\<lambda>c. \<not> session_ok self lib c)
                   (as_completed sched k tasks))) + in_flight sched k)
             (as_completed sched k tasks)))"
  by (simp add: run_pool_def completion_loop_find Let_def split: option.splits)

lemma run_pool_none:
  assumes "fair sched" "\<not> found self" "\<forall>c\<in>set tasks. \<not> session_ok self lib c"
  shows "run_pool self lib sched k tasks = (Inr None, self, as_completed sched k tasks)"
proof -
  have "find (session_ok self lib) (as_completed sched k tasks) = None"
    using assms by (simp add: find_None_iff fair_set)
  then show ?thesis using assms(2) by (simp add: run_pool_find)
qed

lemma run_pool_unique:
  assumes "fair sched" "\<not> found self" "c \<in> set tasks" "session_ok self lib c"
    "\<forall>x\<in>set tasks. session_ok self lib x \<longrightarrow> x = c"
  shows "\<exists>att. run_pool self lib sched k tasks =
           (Inr (Some c), self\<lparr>found := True, result := Some c\<rparr>, att)"
proof -
  have "find (session_ok self lib) (as_completed sched k tasks) = Some c"
  proof (rule find_unique)
    show "c \<in> set (as_completed sched k tasks)"
      using assms(1,3) by (simp only: fair_set)
    show "session_ok self lib c" by (rule assms(4))
    show "\<forall>x\<in>set (as_completed sched k tasks). session_ok self lib x \<longrightarrow> x = c"
      using assms(1,5) by (simp only: fair_set)
  qed
  then show ?thesis using assms(2) by (simp add: run_pool_find)
qed

lemma run_pool_attempted:
  assumes "fair sched"
  shows "mset (snd (snd (run_pool self lib sched k tasks))) \<subseteq># mset tasks"
proof (cases "found self")
  case True
  then show ?thesis by (simp add: run_pool_found)
next
  case False
  have "mset (take n (as_completed sched k tasks)) \<subseteq># mset tasks" for n
    using mset_take_subseteq [of n "as_completed sched k tasks"] assms
    by (simp add: fair_mset)
  then show ?thesis using False assms
    by (simp add: run_pool_find fair_mset split: option.splits)
qed


section \<open>Facts about the batches\<close>

lemma concat_range_from:
  "0 < n \<Longrightarrow> concat (map (\<lambda>i. take n (drop i cs)) (range_from i (length cs) n)) = drop i cs"
proof (induction i "length cs" n rule: range_from.induct)
  case (1 i step)
  show ?case
  proof (cases "i < length cs")
    case True
    have "take step (drop i cs) @ drop (i + step) cs = drop i cs"
      by (metis add.commute append_take_drop_id drop_drop)
    with True 1 show ?thesis by (subst range_from.simps) simp
  next
    case False
    then show ?thesis by (subst range_from.simps) simp
  qed
qed

lemma batches_concat:
  "0 < bs \<Longrightarrow> \<exists>xs. batches cs bs = Inr xs \<and> concat xs = cs"
  using concat_range_from [of "nat bs" cs 0]
  by (simp add: batches_def py_range_def)

lemma batches_zero: "batches cs 0 = Inl ValueError"
  by (simp add: batches_def py_range_def)

lemma batches_neg: "bs < 0 \<Longrightarrow> batches cs bs = Inr []"
  by (simp add: batches_def py_range_def)

lemma batches_Nil: "bs \<noteq> 0 \<Longrightarrow> batches [] bs = Inr []"
  by (simp add: batches_def py_range_def range_from.simps [of 0])

lemma batches_nonempty:
  "0 < bs \<Longrightarrow> cs \<noteq> [] \<Longrightarrow> \<exists>b rest. batches cs bs = Inr (b # rest)"
  by (simp add: batches_def py_range_def range_from.simps [of 0])

section \<open>Facts about the batched loop\<close>

lemma try_credentials_None_iff:
  "\<not> found self \<Longrightarrow>
     (try_credentials self lib (fst c) (snd c) = Inr None) = (\<not> session_ok self lib c)"
  by (simp add: try_credentials_eq)

lemma try_credentials_Some_iff:
  "(try_credentials self lib u p = Inr (Some (u, p))) =
     (\<not> found self \<and> session_ok self lib (u, p))"
  by (simp add: try_credentials_eq)

lemma hybrid_loop_found:
  "found self \<Longrightarrow>
     hybrid_loop self lib sched mw k bs = (Inr None, self, \<lparr>pools = 0, attempted = []\<rparr>)"
  by (cases bs) simp_all

lemma hybrid_loop_bad_workers:
  "mw \<le> 0 \<Longrightarrow> \<not> found self \<Longrightarrow>
     hybrid_loop self lib sched mw k (b # rest) =
       (Inl ValueError, self, \<lparr>pools = 0, attempted = []\<rparr>)"
  by (simp add: ThreadPoolExecutor_def)

lemma hybrid_loop_bad_workers_attempted:
  "mw \<le> 0 \<Longrightarrow> attempted (snd (snd (hybrid_loop self lib sched mw k bs))) = []"
  by (cases bs) (simp_all add: ThreadPoolExecutor_def)

lemma hybrid_loop_none:
  assumes "fair sched" "0 < mw" "\<not> found self"
  shows "\<forall>c\<in>set (concat bs). \<not> session_ok self lib c \<Longrightarrow>
         \<exists>att. hybrid_loop self lib sched mw k bs =
                 (Inr None, self, \<lparr>pools = length bs, attempted = att\<rparr>)
               \<and> mset att = mset (concat bs)"
proof (induction bs arbitrary: k)
  case Nil
  then show ?case by simp
next
  case (Cons b rest)
  from Cons.prems have b: "\<forall>c\<in>set b. \<not> session_ok self lib c"
    and rest: "\<forall>c\<in>set (concat rest). \<not> session_ok self lib c" by simp_all
  have pool: "run_pool self lib sched k b = (Inr None, self, as_completed sched k b)"
    using assms(1,3) b by (rule run_pool_none)
  from Cons.IH [OF rest, of "Suc k"] obtain att where
    att: "hybrid_loop self lib sched mw (Suc k) rest =
            (Inr None, self, \<lparr>pools = length rest, attempted = att\<rparr>)"
    and m: "mset att = mset (concat rest)" by blast
  have "hybrid_loop self lib sched mw k (b # rest) =
          (Inr None, self,
           \<lparr>pools = length (b # rest), attempted = as_completed sched k b @ att\<rparr>)"
    using assms(2,3) by (simp add: ThreadPoolExecutor_def pool att)
  moreover have "mset (as_completed sched k b @ att) = mset (concat (b # rest))"
    using m assms(1) by (simp add: fair_mset)
  ultimately show ?case by blast
qed

lemma hybrid_loop_unique:
  assumes "fair sched" "0 < mw" "\<not> found self" "session_ok self lib c"
  shows "c \<in> set (concat bs) \<Longrightarrow>
         \<forall>x\<in>set (concat bs). session_ok self lib x \<longrightarrow> x = c \<Longrightarrow>
         \<exists>tr. hybrid_loop self lib sched mw k bs =
                 (Inr (Some c), self\<lparr>found := True, result := Some c\<rparr>, tr)"
proof (induction bs arbitrary: k)
  case Nil
  then show ?case by simp
next
  case (Cons b rest)
  have ub: "\<forall>x\<in>set b. session_ok self lib x \<longrightarrow> x = c"
    and ur: "\<forall>x\<in>set (concat rest). session_ok self lib x \<longrightarrow> x = c"
    using Cons.prems(2) by simp_all
  show ?case
  proof (cases "c \<in> set b")
    case True
    from run_pool_unique [OF assms(1,3) True assms(4) ub, of k] obtain att where
      "run_pool self lib sched k b =
         (Inr (Some c), self\<lparr>found := True, result := Some c\<rparr>, att)" by blast
    then show ?thesis using assms(2,3) by (simp add: ThreadPoolExecutor_def)
  next
    case False
    with ub have nb: "\<forall>x\<in>set b. \<not> session_ok self lib x" by blast
    have pool: "run_pool self lib sched k b = (Inr None, self, as_completed sched k b)"
      using assms(1,3) nb by (rule run_pool_none)
    from False Cons.prems(1) have "c \<in> set (concat rest)" by simp
    from Cons.IH [OF this ur, of "Suc k"] obtain tr where
      "hybrid_loop self lib sched mw (Suc k) rest =
         (Inr (Some c), self\<lparr>found := True, result := Some c\<rparr>, tr)" by blast
    then show ?thesis using assms(2,3) by (simp add: ThreadPoolExecutor_def pool)
  qed
qed

lemma hybrid_loop_attempted:
  assumes "fair sched"
  shows "mset (attempted (snd (snd (hybrid_loop self lib sched mw k bs)))) \<subseteq># mset (concat bs)"
proof (induction bs arbitrary: self k)
  case Nil
  then show ?case by simp
next
  case (Cons b rest)
  obtain r self' att where pool: "run_pool self lib sched k b = (r, self', att)"
    by (cases "run_pool self lib sched k b") auto
  have att: "mset att \<subseteq># mset b"
    using run_pool_attempted [OF assms, of self lib k b] by (simp add: pool)
  obtain r' self'' tr where rec:
    "hybrid_loop self' lib sched mw (Suc k) rest = (r', self'', tr)"
    by (cases "hybrid_loop self' lib sched mw (Suc k) rest") auto
  have tr: "mset (attempted tr) \<subseteq># mset (concat rest)"
    using Cons.IH [of self' "Suc k"] by (simp add: rec)
  have both: "mset att + mset (attempted tr) \<subseteq># mset b + mset (concat rest)"
    using att tr by (rule subset_mset.add_mono)
  have one: "mset att \<subseteq># mset b + mset (concat rest)"
    using att by (rule subset_mset.add_increasing2 [OF subset_mset.zero_le])
  show ?case using both one
    by (simp add: ThreadPoolExecutor_def pool rec)
qed


section \<open>Facts about the doubles and the generated list\<close>

lemma fair_in_order: "fair in_order"
  by (simp add: fair_def in_order_def)

lemma fair_reversed: "fair reversed"
  by (simp add: fair_def reversed_def)

lemma product_singleton: "List.product xs [y] = map (\<lambda>x. (x, y)) xs"
  by (induction xs) simp_all

lemma hybrid_combinations_cpu:
  "hybrid_combinations None us ps = take 1000000 (List.product us ps)"
  by (simp add: hybrid_combinations_def generate_combinations_cpu_take
      default_max_combinations_def)

lemma batched_pairs_eq:
  "0 < bs \<Longrightarrow> batched_pairs gpu us ps bs = hybrid_combinations gpu us ps"
  using batches_concat [of bs "hybrid_combinations gpu us ps"]
  by (auto simp: batched_pairs_def)

lemma batches_subset:
  "batches cs bs = Inr xs \<Longrightarrow> mset (concat xs) \<subseteq># mset cs"
proof (cases "0 < bs")
  case True
  assume "batches cs bs = Inr xs"
  with batches_concat [OF True, of cs] show ?thesis by auto
next
  case False
  assume "batches cs bs = Inr xs"
  with False have "xs = []"
    by (cases "bs = 0") (simp_all add: batches_zero batches_neg)
  then show ?thesis by simp
qed

lemma generate_combinations_cpu_capped:
  assumes "1 \<le> m"
  shows "length (generate_combinations_cpu us ps m) = min (length us * length ps) (nat m)"
    and "set (generate_combinations_cpu us ps m) \<subseteq> set us \<times> set ps"
    and "mset (generate_combinations_cpu us ps m) \<subseteq># mset (List.product us ps)"
proof -
  from assms have n: "nat (max 1 m) = nat m" by simp
  show "length (generate_combinations_cpu us ps m) = min (length us * length ps) (nat m)"
    by (simp add: generate_combinations_cpu_take n)
  show "set (generate_combinations_cpu us ps m) \<subseteq> set us \<times> set ps"
    using set_take_subset [of "nat m" "List.product us ps"]
    by (simp add: generate_combinations_cpu_take n)
  show "mset (generate_combinations_cpu us ps m) \<subseteq># mset (List.product us ps)"
    by (simp add: generate_combinations_cpu_take mset_take_subseteq)
qed

section \<open>Facts about the two searches\<close>

lemma session_ok_accepts_only: "session_ok self (accepts_only c) x = (x = c)"
  by (cases x) (simp add: session_ok_def ftp_session_def accepts_only_def)

lemma session_ok_rejects_all: "session_ok self rejects_all x = False"
  by (simp add: session_ok_def ftp_session_def rejects_all_def)


lemma brute_force_cpu_bad_workers:
  "mw \<le> 0 \<Longrightarrow>
     brute_force_cpu self lib sched us ps mw =
       (Inl ValueError, self, \<lparr>pools = 0, attempted = []\<rparr>)"
  by (simp add: brute_force_cpu_def ThreadPoolExecutor_def)

lemma brute_force_cpu_found:
  "0 < mw \<Longrightarrow> found self \<Longrightarrow>
     brute_force_cpu self lib sched us ps mw = (Inr None, self, \<lparr>pools = 1, attempted = []\<rparr>)"
  by (simp add: brute_force_cpu_def ThreadPoolExecutor_def run_pool_found)

lemma brute_force_cpu_find:
  "0 < mw \<Longrightarrow> \<not> found self \<Longrightarrow>
     brute_force_cpu self lib sched us ps mw =
       (case find (session_ok self lib) (as_completed sched 0 (List.product us ps)) of
          None \<Rightarrow>
            (Inr None, self,
             \<lparr>pools = 1, attempted = as_completed sched 0 (List.product us ps)\<rparr>)
        | Some c \<Rightarrow>
            (Inr (Some c), self\<lparr>found := True, result := Some c\<rparr>,
             \<lparr>pools = 1,
              attempted =
                take (Suc (length (takeWhile (\<lambda>c. \<not> session_ok self lib c)
                        (as_completed sched 0 (List.product us ps)))) + in_flight sched 0)
                  (as_completed sched 0 (List.product us ps))\<rparr>))"
  by (simp add: brute_force_cpu_def ThreadPoolExecutor_def run_pool_find Let_def
      split: option.splits)

lemma brute_force_cpu_none:
  assumes "fair sched" "0 < mw" "\<not> found self"
    "\<forall>c\<in>set (List.product us ps). \<not> session_ok self lib c"
  shows "brute_force_cpu self lib sched us ps mw =
           (Inr None, self, \<lparr>pools = 1, attempted = as_completed sched 0 (List.product us ps)\<rparr>)"
proof -
  have "find (session_ok self lib) (as_completed sched 0 (List.product us ps)) = None"
    using assms(1,4) by (simp add: find_None_iff fair_set)
  then show ?thesis using assms(2,3) by (simp add: brute_force_cpu_find)
qed

lemma brute_force_cpu_unique:
  assumes "fair sched" "0 < mw" "\<not> found self" "c \<in> set (List.product us ps)"
    "session_ok self lib c" "\<forall>x\<in>set (List.product us ps). session_ok self lib x \<longrightarrow> x = c"
  shows "fst (brute_force_cpu self lib sched us ps mw) = Inr (Some c)"
proof -
  from run_pool_unique [OF assms(1,3,4,5,6), of 0] obtain att where
    "run_pool self lib sched 0 (List.product us ps) =
       (Inr (Some c), self\<lparr>found := True, result := Some c\<rparr>, att)" by blast
  then show ?thesis using assms(2) by (simp add: brute_force_cpu_def ThreadPoolExecutor_def)
qed

lemma batches_Inr: "bs \<noteq> 0 \<Longrightarrow> \<exists>xs. batches cs bs = Inr xs"
  by (simp add: batches_def py_range_def)

lemma brute_force_hybrid_found:
  assumes "found self" "bs \<noteq> 0"
  shows "brute_force_hybrid self lib sched gpu us ps bs mw =
           (Inr None, self, \<lparr>pools = 0, attempted = []\<rparr>)"
proof -
  from batches_Inr [OF assms(2), of "hybrid_combinations gpu us ps"] obtain xs where
    "batches (hybrid_combinations gpu us ps) bs = Inr xs" by blast
  then show ?thesis using assms(1) by (simp add: brute_force_hybrid_def hybrid_loop_found)
qed

lemma brute_force_hybrid_none:
  assumes "fair sched" "0 < mw" "0 < bs" "\<not> found self"
    "\<forall>c\<in>set (hybrid_combinations gpu us ps). \<not> session_ok self lib c"
  shows "\<exists>att n. brute_force_hybrid self lib sched gpu us ps bs mw =
                   (Inr None, self, \<lparr>pools = n, attempted = att\<rparr>)
                 \<and> mset att = mset (hybrid_combinations gpu us ps)"
proof -
  from batches_concat [OF assms(3), of "hybrid_combinations gpu us ps"] obtain xs where
    xs: "batches (hybrid_combinations gpu us ps) bs = Inr xs"
    and c: "concat xs = hybrid_combinations gpu us ps" by blast
  from assms(5) c have "\<forall>c\<in>set (concat xs). \<not> session_ok self lib c" by simp
  from hybrid_loop_none [OF assms(1,2,4) this, of 0] c xs show ?thesis
    by (auto simp: brute_force_hybrid_def)
qed

lemma brute_force_hybrid_unique:
  assumes "fair sched" "0 < mw" "0 < bs" "\<not> found self"
    "c \<in> set (hybrid_combinations gpu us ps)" "session_ok self lib c"
    "\<forall>x\<in>set (hybrid_combinations gpu us ps). session_ok self lib x \<longrightarrow> x = c"
  shows "fst (brute_force_hybrid self lib sched gpu us ps bs mw) = Inr (Some c)"
proof -
  from batches_concat [OF assms(3), of "hybrid_combinations gpu us ps"] obtain xs where
    xs: "batches (hybrid_combinations gpu us ps) bs = Inr xs"
    and c: "concat xs = hybrid_combinations gpu us ps" by blast
  have 1: "c \<in> set (concat xs)" using assms(5) by (simp only: c)
  have 2: "\<forall>x\<in>set (concat xs). session_ok self lib x \<longrightarrow> x = c"
    using assms(7) by (simp only: c)
  from hybrid_loop_unique [OF assms(1,2,4,6) 1 2, of 0] xs show ?thesis
    by (auto simp: brute_force_hybrid_def)
qed

lemma brute_force_hybrid_bad_workers:
  assumes "mw \<le> 0"
  shows "attempted (snd (snd (brute_force_hybrid self lib sched gpu us ps bs mw))) = []"
    and "\<not> found self \<Longrightarrow> 0 < bs \<Longrightarrow> hybrid_combinations gpu us ps \<noteq> [] \<Longrightarrow>
           brute_force_hybrid self lib sched gpu us ps bs mw =
             (Inl ValueError, self, \<lparr>pools = 0, attempted = []\<rparr>)"
proof -
  show "attempted (snd (snd (brute_force_hybrid self lib sched gpu us ps bs mw))) = []"
    using assms
    by (cases "batches (hybrid_combinations gpu us ps) bs")
       (simp_all add: brute_force_hybrid_def hybrid_loop_bad_workers_attempted)
next
  assume nf: "\<not> found self" and bs: "0 < bs" and ne: "hybrid_combinations gpu us ps \<noteq> []"
  from batches_nonempty [OF bs ne] obtain b rest where
    "batches (hybrid_combinations gpu us ps) bs = Inr (b # rest)" by blast
  then show "brute_force_hybrid self lib sched gpu us ps bs mw =
               (Inl ValueError, self, \<lparr>pools = 0, attempted = []\<rparr>)"
    using assms nf by (simp add: brute_force_hybrid_def ThreadPoolExecutor_def)
qed

lemma brute_force_hybrid_empty:
  "bs \<noteq> 0 \<Longrightarrow> hybrid_combinations gpu us ps = [] \<Longrightarrow>
     brute_force_hybrid self lib sched gpu us ps bs mw =
       (Inr None, self, \<lparr>pools = 0, attempted = []\<rparr>)"
  by (simp add: brute_force_hybrid_def batches_Nil)





section \<open>Facts about the writes and the order of reading\<close>

lemma session_ok_faults_except: "session_ok self (faults_except e c) x = (x = c)"
  by (cases x) (simp add: session_ok_def ftp_session_def faults_except_def)

lemma find_append_cases:
  "find P (xs @ ys) = (case find P xs of None \<Rightarrow> find P ys | Some x \<Rightarrow> Some x)"
  by (induction xs) simp_all


lemma completion_writes_find:
  "\<not> found self \<Longrightarrow>
   completion_writes self lib fs =
     (case find (session_ok self lib) fs of
        None \<Rightarrow> []
      | Some c \<Rightarrow> [self\<lparr>found := True\<rparr>, self\<lparr>found := True, result := Some c\<rparr>])"
  by (induction fs) (auto simp: try_credentials_eq split: option.splits)

lemma completion_loop_skips:
  assumes "\<not> found self" "\<forall>c\<in>set pre. \<not> session_ok self lib c"
  shows "completion_loop self lib (pre @ fs) =
           (case completion_loop self lib fs of (r, s, n) \<Rightarrow> (r, s, length pre + n))"
  using assms(2)
proof (induction pre)
  case Nil
  then show ?case by (cases "completion_loop self lib fs") simp
next
  case (Cons c pre)
  then have c: "\<not> session_ok self lib c" and pre: "\<forall>c\<in>set pre. \<not> session_ok self lib c"
    by simp_all
  from c assms(1) have "try_credentials self lib (fst c) (snd c) = Inr None"
    by (simp add: try_credentials_None_iff)
  with Cons.IH [OF pre] assms(1) show ?case
    by (cases c; cases "completion_loop self lib fs") simp
qed





lemma hybrid_loop_find:
  assumes "0 < mw" "\<not> found self"
  shows "fst (hybrid_loop self lib sched mw k bs)
           = Inr (find (session_ok self lib) (hybrid_order sched k bs)) \<and>
         fst (snd (hybrid_loop self lib sched mw k bs))
           = (case find (session_ok self lib) (hybrid_order sched k bs) of
                None \<Rightarrow> self
              | Some c \<Rightarrow> self\<lparr>found := True, result := Some c\<rparr>) \<and>
         hybrid_loop_writes self lib sched mw k bs
           = (case find (session_ok self lib) (hybrid_order sched k bs) of
                None \<Rightarrow> []
              | Some c \<Rightarrow> [self\<lparr>found := True\<rparr>, self\<lparr>found := True, result := Some c\<rparr>])"
proof (induction bs arbitrary: k)
  case Nil
  then show ?case by simp
next
  case (Cons b rest)
  show ?case
  proof (cases "find (session_ok self lib) (as_completed sched k b)")
    case None
    then have pool: "run_pool self lib sched k b = (Inr None, self, as_completed sched k b)"
      using assms(2) by (simp add: run_pool_find)
    have w: "completion_writes self lib (as_completed sched k b) = []"
      using assms(2) None by (simp add: completion_writes_find)
    obtain r s tr where rec: "hybrid_loop self lib sched mw (Suc k) rest = (r, s, tr)"
      by (cases "hybrid_loop self lib sched mw (Suc k) rest") auto
    from Cons.IH [of "Suc k"] rec None assms show ?thesis
      by (simp add: ThreadPoolExecutor_def pool w find_append_cases)
  next
    case (Some c)
    then have pool: "\<exists>att. run_pool self lib sched k b =
        (Inr (Some c), self\<lparr>found := True, result := Some c\<rparr>, att)"
      using assms(2) by (simp add: run_pool_find)
    then obtain att where pool: "run_pool self lib sched k b =
        (Inr (Some c), self\<lparr>found := True, result := Some c\<rparr>, att)" by blast
    have w: "completion_writes self lib (as_completed sched k b)
               = [self\<lparr>found := True\<rparr>, self\<lparr>found := True, result := Some c\<rparr>]"
      using assms(2) Some by (simp add: completion_writes_find)
    from Some assms show ?thesis
      by (simp add: ThreadPoolExecutor_def pool w find_append_cases)
  qed
qed


lemma brute_force_hybrid_find:
  assumes "0 < mw" "0 < bs" "\<not> found self"
  shows "fst (brute_force_hybrid self lib sched gpu us ps bs mw)
           = Inr (find (session_ok self lib) (hybrid_completion_order sched gpu us ps bs)) \<and>
         fst (snd (brute_force_hybrid self lib sched gpu us ps bs mw))
           = (case find (session_ok self lib) (hybrid_completion_order sched gpu us ps bs) of
                None \<Rightarrow> self
              | Some c \<Rightarrow> self\<lparr>found := True, result := Some c\<rparr>) \<and>
         brute_force_hybrid_writes self lib sched gpu us ps bs mw
           = (case find (session_ok self lib) (hybrid_completion_order sched gpu us ps bs) of
                None \<Rightarrow> []
              | Some c \<Rightarrow> [self\<lparr>found := True\<rparr>, self\<lparr>found := True, result := Some c\<rparr>])"
proof -
  from assms(2) have "bs \<noteq> 0" by simp
  from batches_Inr [OF this, of "hybrid_combinations gpu us ps"] obtain xs where
    xs: "batches (hybrid_combinations gpu us ps) bs = Inr xs" by blast
  from hybrid_loop_find [OF assms(1,3), of lib sched 0 xs] show ?thesis
    by (simp add: brute_force_hybrid_def brute_force_hybrid_writes_def
        hybrid_completion_order_def xs)
qed

lemma hybrid_order_mset: "fair sched \<Longrightarrow> mset (hybrid_order sched k bs) = mset (concat bs)"
  by (induction bs arbitrary: k) (simp_all add: fair_mset)

lemma hybrid_completion_order_mset:
  assumes "fair sched" "0 < bs"
  shows "mset (hybrid_completion_order sched gpu us ps bs) = mset (hybrid_combinations gpu us ps)"
proof -
  from batches_concat [OF assms(2), of "hybrid_combinations gpu us ps"] obtain xs where
    "batches (hybrid_combinations gpu us ps) bs = Inr xs"
    "concat xs = hybrid_combinations gpu us ps" by blast
  then show ?thesis
    using hybrid_order_mset [OF assms(1), of 0 xs]
    by (simp add: hybrid_completion_order_def)
qed



section \<open>The claims\<close>

text \<open>
  C2. The builder is to produce the cross product truncated to \<open>max_combinations\<close>.
  For a cap of \<open>0\<close> it still produces one pair, the test of line 39 standing after
  the append of line 38; for every cap from \<open>1\<close> on the list is the cross product
  truncated to the cap (\<open>generate_combinations_cpu_capped\<close>).
\<close>

theorem generate_combinations_cpu_cap_zero:
  "generate_combinations_cpu [''a''] [''b''] 0 = [(''a'', ''b'')]"
  by (simp add: generate_combinations_cpu_def)

text \<open>
  C9. The builder enumerates username-major: below the cap and the size of the cross
  product, the \<open>k\<close>-th pair is made of the username at \<open>k div |passwords|\<close> and
  the password at \<open>k mod |passwords|\<close>. The builder is a function of its arguments,
  so two runs on the same inputs give the same list.
\<close>

theorem generate_combinations_cpu_nth:
  assumes "int k < min (int (length us * length ps)) m"
  shows "k < length (generate_combinations_cpu us ps m) \<and>
         generate_combinations_cpu us ps m ! k = (us ! (k div length ps), ps ! (k mod length ps))"
proof -
  from assms have "int k < int (length us * length ps)" and m: "int k < m"
    by (simp_all del: of_nat_mult)
  then have k: "k < length us * length ps" by (simp only: of_nat_less_iff)
  from m have km: "k < nat (max 1 m)" by linarith
  from k km have "k < length (generate_combinations_cpu us ps m)"
    by (simp add: generate_combinations_cpu_take)
  moreover have "generate_combinations_cpu us ps m ! k = List.product us ps ! k"
    using km by (simp add: generate_combinations_cpu_take)
  ultimately show ?thesis using k by (simp add: product_nth)
qed

theorem generate_combinations_cpu_nth_witness:
  "int 2 < min (int (length [''admin'', ''root''] * length [''1234'', ''admin''])) 3 \<and>
   2 < length (generate_combinations_cpu [''admin'', ''root''] [''1234'', ''admin''] 3) \<and>
   generate_combinations_cpu [''admin'', ''root''] [''1234'', ''admin''] 3 ! 2
     = (''root'', ''1234'')"
proof -
  have d: "length [''1234'', ''admin''] = 2" "(2::nat) div 2 = 1" "(2::nat) mod 2 = 0"
    by simp_all
  have h: "int 2 < min (int (length [''admin'', ''root''] * length [''1234'', ''admin''])) 3"
    by simp
  from generate_combinations_cpu_nth [OF h] h show ?thesis
    by (simp only: d) simp
qed

text \<open>
  C3, as amended. Without the GPU and for every batch size from \<open>1\<close> on, the pairs of
  all batches are, as a multiset, the first 1000000 pairs of the cross product that the
  flat search enumerates; they are the whole cross product whenever it has at most
  1000000 pairs.
\<close>

theorem batched_pairs_cover:
  assumes "1 \<le> bs"
  shows "mset (batched_pairs None us ps bs) = mset (take 1000000 (List.product us ps)) \<and>
         (length us * length ps \<le> 1000000 \<longrightarrow>
            mset (batched_pairs None us ps bs) = mset (List.product us ps))"
  using assms by (simp add: batched_pairs_eq hybrid_combinations_cpu)

theorem batched_pairs_cover_witness:
  "(1::int) \<le> 2 \<and> length [''admin'', ''root'', ''ftp''] * length [''1234''] \<le> 1000000 \<and>
   mset (batched_pairs None [''admin'', ''root'', ''ftp''] [''1234''] 2)
     = mset (List.product [''admin'', ''root'', ''ftp''] [''1234''])"
  using batched_pairs_cover [of 2 "[''admin'', ''root'', ''ftp'']" "[''1234'']"]
  by simp

text \<open>
  C3, as stated, fails: for 1000001 usernames and one password the batches hold 1000000
  pairs, the cross product 1000001.
\<close>

theorem batched_pairs_counterexample:
  "mset (batched_pairs None (replicate 1000001 ''a'') [''b''] 1000)
     \<noteq> mset (List.product (replicate 1000001 ''a'') [''b''])"
proof
  assume "mset (batched_pairs None (replicate 1000001 ''a'') [''b''] 1000)
            = mset (List.product (replicate 1000001 ''a'') [''b''])"
  then have "length (batched_pairs None (replicate 1000001 ''a'') [''b''] 1000)
               = length (List.product (replicate 1000001 ''a'') [''b''])"
    by (rule mset_eq_length)
  then show False
    by (simp add: batched_pairs_eq hybrid_combinations_cpu)
qed

text \<open>
  C10. Without the GPU the batched search works on the first 1000000 pairs of the cross
  product only: that is the list it generates, and the sessions it begins are, as a
  multiset, among these pairs, so at most 1000000.
\<close>

theorem brute_force_hybrid_cap:
  assumes "fair sched"
  shows "hybrid_combinations None us ps = take 1000000 (List.product us ps) \<and>
         length (hybrid_combinations None us ps) \<le> 1000000 \<and>
         mset (attempted (snd (snd (brute_force_hybrid self lib sched None us ps bs mw))))
           \<subseteq># mset (take 1000000 (List.product us ps)) \<and>
         length (attempted (snd (snd (brute_force_hybrid self lib sched None us ps bs mw))))
           \<le> 1000000"
proof -
  let ?cs = "take 1000000 (List.product us ps)"
  let ?att = "attempted (snd (snd (brute_force_hybrid self lib sched None us ps bs mw)))"
  have cs: "hybrid_combinations None us ps = ?cs" by (rule hybrid_combinations_cpu)
  have sub: "mset ?att \<subseteq># mset ?cs"
  proof (cases "batches ?cs bs")
    case (Inl e)
    then show ?thesis by (simp add: brute_force_hybrid_def cs)
  next
    case (Inr xs)
    have "mset (attempted (snd (snd (hybrid_loop self lib sched mw 0 xs)))) \<subseteq># mset (concat xs)"
      using assms by (rule hybrid_loop_attempted)
    also have "mset (concat xs) \<subseteq># mset ?cs" using Inr by (rule batches_subset)
    finally show ?thesis using Inr by (simp add: brute_force_hybrid_def cs)
  qed
  have "length ?att = size (mset ?att)" by simp
  also have "\<dots> \<le> size (mset ?cs)" using sub by (rule size_mset_mono)
  also have "\<dots> \<le> 1000000" by simp
  finally have "length ?att \<le> 1000000" .
  with cs sub show ?thesis by simp
qed

theorem brute_force_hybrid_cap_witness:
  "fair reversed \<and>
   length (hybrid_combinations None (replicate 1000001 ''a'') [''b'']) \<le> 1000000 \<and>
   length (attempted (snd (snd (brute_force_hybrid (init ''host'' 21 5) rejects_all reversed
      None (replicate 1000001 ''a'') [''b''] 1000 8)))) \<le> 1000000"
  using brute_force_hybrid_cap [OF fair_reversed, of "replicate 1000001 ''a''" "[''b'']"
      "init ''host'' 21 5" rejects_all 1000 8]
  by (simp add: fair_reversed)

text \<open>
  C6, as amended. With \<open>max_workers \<le> 0\<close> the flat search raises \<^verbatim>\<open>ValueError\<close>
  for every combination space, the pool being constructed before any task is submitted.
  The batched search raises it when it reaches its first batch: \<open>found\<close> not set, a
  batch size from \<open>1\<close> on and a generated list that is not empty. Neither begins a
  session.
\<close>

theorem nonpositive_max_workers:
  assumes "mw \<le> 0"
  shows "brute_force_cpu self lib sched us ps mw =
           (Inl ValueError, self, \<lparr>pools = 0, attempted = []\<rparr>) \<and>
         (\<not> found self \<and> 1 \<le> bs \<and> hybrid_combinations gpu us ps \<noteq> [] \<longrightarrow>
            brute_force_hybrid self lib sched gpu us ps bs mw =
              (Inl ValueError, self, \<lparr>pools = 0, attempted = []\<rparr>)) \<and>
         attempted (snd (snd (brute_force_hybrid self lib sched gpu us ps bs mw))) = []"
  using assms
  by (simp add: brute_force_cpu_bad_workers brute_force_hybrid_bad_workers)

theorem nonpositive_max_workers_witness:
  "(0::int) \<le> 0 \<and>
   brute_force_cpu (init ''host'' 21 5) (accepts_only (''root'', ''admin'')) in_order
       [''admin'', ''root''] [''1234'', ''admin''] 0
     = (Inl ValueError, init ''host'' 21 5, \<lparr>pools = 0, attempted = []\<rparr>) \<and>
   brute_force_hybrid (init ''host'' 21 5) (accepts_only (''root'', ''admin'')) in_order None
       [''admin'', ''root''] [''1234'', ''admin''] 1000 0
     = (Inl ValueError, init ''host'' 21 5, \<lparr>pools = 0, attempted = []\<rparr>)"
proof -
  have 1: "\<not> found (init ''host'' 21 5)" by (simp add: init_def)
  have 2: "hybrid_combinations None [''admin'', ''root''] [''1234'', ''admin''] \<noteq> []"
    by (simp add: hybrid_combinations_cpu)
  from nonpositive_max_workers
         [of 0 "init ''host'' 21 5" "accepts_only (''root'', ''admin'')" in_order
             "[''admin'', ''root'']" "[''1234'', ''admin'']" 1000 None] 1 2
  show ?thesis by simp
qed

text \<open>
  C6, as stated, fails: over an empty combination space the batched search constructs no
  pool, so \<open>max_workers = 0\<close> goes unnoticed and the search returns \<^verbatim>\<open>None\<close>.
\<close>

theorem nonpositive_max_workers_counterexample:
  "brute_force_hybrid (init ''host'' 21 5) rejects_all in_order None [] [''1234''] 1000 0
     = (Inr None, init ''host'' 21 5, \<lparr>pools = 0, attempted = []\<rparr>)"
  by (simp add: brute_force_hybrid_empty hybrid_combinations_cpu)

text \<open>
  C7, as amended. Over an empty generated list the batched search returns \<^verbatim>\<open>None\<close>
  with no session begun and no pool constructed, for every \<open>max_workers\<close> and every
  batch size but \<open>0\<close>. Over an empty cross product the flat search returns
  \<^verbatim>\<open>None\<close> with no session begun when \<open>max_workers\<close> is at least \<open>1\<close>; it
  constructs its pool and submits nothing to it.
\<close>

theorem empty_combinations:
  assumes "fair sched"
  shows "(bs \<noteq> 0 \<and> hybrid_combinations gpu us ps = [] \<longrightarrow>
            brute_force_hybrid self lib sched gpu us ps bs mw =
              (Inr None, self, \<lparr>pools = 0, attempted = []\<rparr>)) \<and>
         (1 \<le> mw \<and> List.product us ps = [] \<longrightarrow>
            brute_force_cpu self lib sched us ps mw =
              (Inr None, self, \<lparr>pools = 1, attempted = []\<rparr>))"
proof -
  have "brute_force_cpu self lib sched us ps mw = (Inr None, self, \<lparr>pools = 1, attempted = []\<rparr>)"
    if mw: "1 \<le> mw" and e: "List.product us ps = []"
  proof (cases "found self")
    case True
    with mw show ?thesis by (simp add: brute_force_cpu_found)
  next
    case False
    have "as_completed sched 0 [] = []"
      using fair_mset [OF assms, of 0 "[]"] by simp
    with mw False e show ?thesis by (simp add: brute_force_cpu_find)
  qed
  then show ?thesis by (simp add: brute_force_hybrid_empty)
qed

theorem empty_combinations_witness:
  "fair reversed \<and> hybrid_combinations None [] [''1234'', ''admin''] = [] \<and>
   List.product [] [''1234'', ''admin''] = ([] :: cred list) \<and>
   brute_force_hybrid (init ''host'' 21 5) (accepts_only (''root'', ''admin'')) reversed None
       [] [''1234'', ''admin''] 1000 8
     = (Inr None, init ''host'' 21 5, \<lparr>pools = 0, attempted = []\<rparr>) \<and>
   brute_force_cpu (init ''host'' 21 5) (accepts_only (''root'', ''admin'')) reversed
       [] [''1234'', ''admin''] 10
     = (Inr None, init ''host'' 21 5, \<lparr>pools = 1, attempted = []\<rparr>)"
proof -
  have 1: "hybrid_combinations None [] [''1234'', ''admin''] = []"
    by (simp add: hybrid_combinations_cpu)
  from empty_combinations
         [OF fair_reversed, of 1000 None "[]" "[''1234'', ''admin'']" "init ''host'' 21 5"
             "accepts_only (''root'', ''admin'')" 8]
       empty_combinations
         [OF fair_reversed, of 1000 None "[]" "[''1234'', ''admin'']" "init ''host'' 21 5"
             "accepts_only (''root'', ''admin'')" 10] 1
  show ?thesis by (simp add: fair_reversed)
qed

text \<open>
  C7, as stated, fails for the flat search: over an empty username list it constructs its
  pool all the same, and with \<open>max_workers = 0\<close> it raises instead of returning
  \<^verbatim>\<open>None\<close>.
\<close>

theorem empty_combinations_counterexample:
  "brute_force_cpu (init ''host'' 21 5) rejects_all in_order [] [''1234''] 10
     = (Inr None, init ''host'' 21 5, \<lparr>pools = 1, attempted = []\<rparr>) \<and>
   fst (brute_force_cpu (init ''host'' 21 5) rejects_all in_order [] [''1234''] 0)
     = Inl ValueError"
  by (simp add: brute_force_cpu_def ThreadPoolExecutor_def run_pool_def in_order_def init_def)

text \<open>
  C1, as amended. Let exactly one pair of the cross product succeed, and let the search
  start with \<open>found\<close> not set (the attempt succeeds only then). For every
  \<open>max_workers\<close> from \<open>1\<close> on and every completion order the flat search returns
  that pair. Without the GPU the batched search returns it, for every batch size from
  \<open>1\<close> on, when the pair is among the first 1000000 pairs of the cross product.
\<close>

theorem unique_success_returned:
  assumes "fair sched" "1 \<le> mw" "1 \<le> bs"
    "(u, p) \<in> set (List.product us ps)"
    "try_credentials self lib u p = Inr (Some (u, p))"
    "\<forall>c\<in>set (List.product us ps).
        c \<noteq> (u, p) \<longrightarrow> try_credentials self lib (fst c) (snd c) = Inr None"
  shows "fst (brute_force_cpu self lib sched us ps mw) = Inr (Some (u, p)) \<and>
         ((u, p) \<in> set (take 1000000 (List.product us ps)) \<longrightarrow>
            fst (brute_force_hybrid self lib sched None us ps bs mw) = Inr (Some (u, p)))"
proof -
  have mw: "0 < mw" and bs: "0 < bs" using assms(2,3) by simp_all
  from assms(5) have nf: "\<not> found self" and ok: "session_ok self lib (u, p)"
    by (simp_all add: try_credentials_Some_iff)
  have uniq: "\<forall>x\<in>set (List.product us ps). session_ok self lib x \<longrightarrow> x = (u, p)"
  proof (intro ballI impI)
    fix x assume x: "x \<in> set (List.product us ps)" and sx: "session_ok self lib x"
    show "x = (u, p)"
    proof (rule ccontr)
      assume "x \<noteq> (u, p)"
      with assms(6) x have "try_credentials self lib (fst x) (snd x) = Inr None" by blast
      with sx try_credentials_None_iff [OF nf, of lib x] show False by blast
    qed
  qed
  have cpu: "fst (brute_force_cpu self lib sched us ps mw) = Inr (Some (u, p))"
    using assms(1) mw nf assms(4) ok uniq by (rule brute_force_cpu_unique)
  have "fst (brute_force_hybrid self lib sched None us ps bs mw) = Inr (Some (u, p))"
    if "(u, p) \<in> set (take 1000000 (List.product us ps))"
  proof -
    have 1: "(u, p) \<in> set (hybrid_combinations None us ps)"
      using that by (simp only: hybrid_combinations_cpu)
    have 2: "\<forall>x\<in>set (hybrid_combinations None us ps). session_ok self lib x \<longrightarrow> x = (u, p)"
    proof (intro ballI impI)
      fix x assume "x \<in> set (hybrid_combinations None us ps)" and sx: "session_ok self lib x"
      then have "x \<in> set (List.product us ps)"
        by (simp only: hybrid_combinations_cpu) (rule in_set_takeD)
      with uniq sx show "x = (u, p)" by blast
    qed
    from assms(1) mw bs nf 1 ok 2 show ?thesis by (rule brute_force_hybrid_unique)
  qed
  with cpu show ?thesis by blast
qed

theorem unique_success_returned_witness:
  "fair reversed \<and> (1::int) \<le> 4 \<and> (1::int) \<le> 3 \<and>
   (''root'', ''admin'') \<in> set (take 1000000 (List.product [''admin'', ''root''] [''1234'', ''admin''])) \<and>
   try_credentials (init ''host'' 21 5) (accepts_only (''root'', ''admin'')) ''root'' ''admin''
     = Inr (Some (''root'', ''admin'')) \<and>
   filter (session_ok (init ''host'' 21 5) (accepts_only (''root'', ''admin'')))
       (List.product [''admin'', ''root''] [''1234'', ''admin''])
     = [(''root'', ''admin'')] \<and>
   fst (brute_force_cpu (init ''host'' 21 5) (accepts_only (''root'', ''admin'')) reversed
          [''admin'', ''root''] [''1234'', ''admin''] 4) = Inr (Some (''root'', ''admin'')) \<and>
   fst (brute_force_hybrid (init ''host'' 21 5) (accepts_only (''root'', ''admin'')) reversed None
          [''admin'', ''root''] [''1234'', ''admin''] 3 4) = Inr (Some (''root'', ''admin''))"
proof -
  let ?self = "init ''host'' 21 5" and ?lib = "accepts_only (''root'', ''admin'')"
  let ?us = "[''admin'', ''root'']" and ?ps = "[''1234'', ''admin'']"
  have nf: "\<not> found ?self" by (simp add: init_def)
  have mem: "(''root'', ''admin'') \<in> set (List.product ?us ?ps)" by simp
  have mem': "(''root'', ''admin'') \<in> set (take 1000000 (List.product ?us ?ps))" by simp
  have ok: "try_credentials ?self ?lib ''root'' ''admin'' = Inr (Some (''root'', ''admin''))"
    using nf by (simp add: try_credentials_eq session_ok_accepts_only)
  have others: "\<forall>c\<in>set (List.product ?us ?ps).
      c \<noteq> (''root'', ''admin'') \<longrightarrow> try_credentials ?self ?lib (fst c) (snd c) = Inr None"
    using nf by (simp add: try_credentials_eq session_ok_accepts_only)
  have one: "filter (session_ok ?self ?lib) (List.product ?us ?ps) = [(''root'', ''admin'')]"
    by (simp add: session_ok_accepts_only)
  from unique_success_returned [OF fair_reversed _ _ mem ok others, of 4 3] mem' ok one
  show ?thesis by (simp add: fair_reversed)
qed

text \<open>
  C1, as stated, fails for the batched search: with 1000001 usernames and one password,
  the last pair being the only one that succeeds, the flat search returns the pair and
  the batched search, which generates the first 1000000 pairs only, returns
  \<^verbatim>\<open>None\<close>.
\<close>

theorem unique_success_counterexample:
  "filter (session_ok (init ''host'' 21 5) (accepts_only (''root'', ''x'')))
       (List.product (replicate 1000000 ''a'' @ [''root'']) [''x''])
     = [(''root'', ''x'')] \<and>
   fst (brute_force_cpu (init ''host'' 21 5) (accepts_only (''root'', ''x'')) in_order
          (replicate 1000000 ''a'' @ [''root'']) [''x''] 8) = Inr (Some (''root'', ''x'')) \<and>
   fst (brute_force_hybrid (init ''host'' 21 5) (accepts_only (''root'', ''x'')) in_order None
          (replicate 1000000 ''a'' @ [''root'']) [''x''] 1000 8) = Inr None"
proof -
  let ?self = "init ''host'' 21 5" and ?lib = "accepts_only (''root'', ''x'')"
  let ?us = "replicate 1000000 ''a'' @ [''root'']" and ?ps = "[''x'']"
  have nf: "\<not> found ?self" by (simp add: init_def)
  have prod: "List.product ?us ?ps = replicate 1000000 (''a'', ''x'') @ [(''root'', ''x'')]"
    by (simp add: product_singleton)
  have one: "filter (session_ok ?self ?lib) (List.product ?us ?ps) = [(''root'', ''x'')]"
    by (simp add: prod session_ok_accepts_only)
  have "fst (brute_force_cpu ?self ?lib in_order ?us ?ps 8) = Inr (Some (''root'', ''x''))"
  proof (rule brute_force_cpu_unique [OF fair_in_order _ nf])
    show "(0::int) < 8" by simp
    show "(''root'', ''x'') \<in> set (List.product ?us ?ps)" by (simp add: prod)
    show "session_ok ?self ?lib (''root'', ''x'')" by (simp add: session_ok_accepts_only)
    show "\<forall>x\<in>set (List.product ?us ?ps). session_ok ?self ?lib x \<longrightarrow> x = (''root'', ''x'')"
      by (simp only: session_ok_accepts_only) blast
  qed
  moreover have "fst (brute_force_hybrid ?self ?lib in_order None ?us ?ps 1000 8) = Inr None"
  proof -
    have gen: "hybrid_combinations None ?us ?ps = replicate 1000000 (''a'', ''x'')"
      by (simp add: hybrid_combinations_cpu prod)
    have "\<forall>c\<in>set (hybrid_combinations None ?us ?ps). \<not> session_ok ?self ?lib c"
      by (simp add: gen session_ok_accepts_only)
    from brute_force_hybrid_none [OF fair_in_order _ _ nf this, of 8 1000]
    show ?thesis by auto
  qed
  ultimately show ?thesis using one by blast
qed

text \<open>
  C4, as amended. When no pair succeeds, a search that starts with \<open>found\<close> not set,
  at least one worker and a batch size of at least \<open>1\<close> returns \<^verbatim>\<open>None\<close>, and
  the sessions it has begun by then are exactly the combinations of the list it built, each
  once: the whole cross product for the flat search, the generated list (\<^verbatim>\<open>total\<close>
  of line 96) for the batched one, which without the GPU has the length of the cross
  product or 1000000, whichever is smaller.
\<close>

theorem no_success_exhausts:
  assumes "fair sched" "\<not> found self" "1 \<le> mw" "1 \<le> bs"
    "\<forall>c\<in>set (List.product us ps) \<union> set (hybrid_combinations gpu us ps).
        try_credentials self lib (fst c) (snd c) = Inr None"
  shows "fst (brute_force_cpu self lib sched us ps mw) = Inr None \<and>
         mset (attempted (snd (snd (brute_force_cpu self lib sched us ps mw))))
           = mset (List.product us ps) \<and>
         length (attempted (snd (snd (brute_force_cpu self lib sched us ps mw))))
           = length us * length ps \<and>
         fst (brute_force_hybrid self lib sched gpu us ps bs mw) = Inr None \<and>
         mset (attempted (snd (snd (brute_force_hybrid self lib sched gpu us ps bs mw))))
           = mset (hybrid_combinations gpu us ps) \<and>
         length (attempted (snd (snd (brute_force_hybrid self lib sched gpu us ps bs mw))))
           = length (hybrid_combinations gpu us ps) \<and>
         (gpu = None \<longrightarrow>
            length (attempted (snd (snd (brute_force_hybrid self lib sched gpu us ps bs mw))))
              = min (length us * length ps) 1000000)"
proof -
  have mw: "0 < mw" and bs: "0 < bs" using assms(3,4) by simp_all
  have none: "\<not> session_ok self lib c"
    if "c \<in> set (List.product us ps) \<union> set (hybrid_combinations gpu us ps)" for c
    using assms(5) that try_credentials_None_iff [OF assms(2), of lib c] by blast
  have flat: "\<forall>c\<in>set (List.product us ps). \<not> session_ok self lib c"
    using none by blast
  have batched: "\<forall>c\<in>set (hybrid_combinations gpu us ps). \<not> session_ok self lib c"
    using none by blast
  have cpu: "brute_force_cpu self lib sched us ps mw =
      (Inr None, self, \<lparr>pools = 1, attempted = as_completed sched 0 (List.product us ps)\<rparr>)"
    using assms(1) mw assms(2) flat by (rule brute_force_cpu_none)
  have c1: "fst (brute_force_cpu self lib sched us ps mw) = Inr None"
    by (simp add: cpu)
  have c2: "mset (attempted (snd (snd (brute_force_cpu self lib sched us ps mw))))
              = mset (List.product us ps)"
    using assms(1) by (simp add: cpu fair_mset)
  have c3: "length (attempted (snd (snd (brute_force_cpu self lib sched us ps mw))))
              = length us * length ps"
    using assms(1) by (simp add: cpu fair_length)
  from brute_force_hybrid_none [OF assms(1) mw bs assms(2) batched] obtain att n where
    hyb: "brute_force_hybrid self lib sched gpu us ps bs mw =
            (Inr None, self, \<lparr>pools = n, attempted = att\<rparr>)"
    and att: "mset att = mset (hybrid_combinations gpu us ps)" by blast
  have h1: "fst (brute_force_hybrid self lib sched gpu us ps bs mw) = Inr None"
    by (simp add: hyb)
  have h2: "mset (attempted (snd (snd (brute_force_hybrid self lib sched gpu us ps bs mw))))
              = mset (hybrid_combinations gpu us ps)"
    by (simp add: hyb att)
  have h3: "length (attempted (snd (snd (brute_force_hybrid self lib sched gpu us ps bs mw))))
              = length (hybrid_combinations gpu us ps)"
    using mset_eq_length [OF att] by (simp add: hyb)
  have h4: "length (attempted (snd (snd (brute_force_hybrid self lib sched gpu us ps bs mw))))
              = min (length us * length ps) 1000000" if "gpu = None"
    using h3 that by (simp add: hybrid_combinations_cpu)
  from c1 c2 c3 h1 h2 h3 h4 show ?thesis by blast
qed

theorem no_success_exhausts_witness:
  "fair reversed \<and> \<not> found (init ''host'' 21 5) \<and> (1::int) \<le> 2 \<and> (1::int) \<le> 3 \<and>
   fst (brute_force_cpu (init ''host'' 21 5) rejects_all reversed
          [''admin'', ''root''] [''1234'', ''admin''] 2) = Inr None \<and>
   length (attempted (snd (snd (brute_force_cpu (init ''host'' 21 5) rejects_all reversed
          [''admin'', ''root''] [''1234'', ''admin''] 2)))) = 4 \<and>
   fst (brute_force_hybrid (init ''host'' 21 5) rejects_all reversed None
          [''admin'', ''root''] [''1234'', ''admin''] 3 2) = Inr None \<and>
   length (attempted (snd (snd (brute_force_hybrid (init ''host'' 21 5) rejects_all reversed None
          [''admin'', ''root''] [''1234'', ''admin''] 3 2)))) = 4"
proof -
  have nf: "\<not> found (init ''host'' 21 5)" by (simp add: init_def)
  have all: "\<forall>c\<in>set (List.product [''admin'', ''root''] [''1234'', ''admin''])
                  \<union> set (hybrid_combinations None [''admin'', ''root''] [''1234'', ''admin'']).
               try_credentials (init ''host'' 21 5) rejects_all (fst c) (snd c) = Inr None"
    by (simp add: try_credentials_eq session_ok_rejects_all)
  have len: "length (hybrid_combinations None [''admin'', ''root''] [''1234'', ''admin'']) = 4"
    by (simp add: hybrid_combinations_cpu)
  from no_success_exhausts [OF fair_reversed nf _ _ all, of 2 3] len
  show ?thesis by (simp add: fair_reversed nf)
qed

text \<open>
  C4, as stated, fails. Over 1000001 pairs that all fail the batched search begins 1000000
  sessions; on an object whose \<open>found\<close> is set a search begins none; with
  \<open>max_workers = 0\<close> the flat search raises; with a negative batch size the batched
  search begins none.
\<close>

theorem no_success_counterexample:
  "fst (brute_force_hybrid (init ''host'' 21 5) rejects_all in_order None
          (replicate 1000001 ''a'') [''b''] 1000 8) = Inr None \<and>
   length (attempted (snd (snd (brute_force_hybrid (init ''host'' 21 5) rejects_all in_order None
          (replicate 1000001 ''a'') [''b''] 1000 8)))) = 1000000 \<and>
   length (List.product (replicate 1000001 ''a'') [''b'']) = 1000001 \<and>
   brute_force_cpu
       \<lparr>host = ''host'', port = 21, timeout = 5, found = True, result = Some (''root'', ''toor'')\<rparr>
       rejects_all in_order [''admin''] [''1234''] 10
     = (Inr None,
        \<lparr>host = ''host'', port = 21, timeout = 5, found = True, result = Some (''root'', ''toor'')\<rparr>,
        \<lparr>pools = 1, attempted = []\<rparr>) \<and>
   fst (brute_force_cpu (init ''host'' 21 5) rejects_all in_order [''admin''] [''1234''] 0)
     = Inl ValueError \<and>
   brute_force_hybrid (init ''host'' 21 5) rejects_all in_order None [''admin''] [''1234''] (- 1) 8
     = (Inr None, init ''host'' 21 5, \<lparr>pools = 0, attempted = []\<rparr>)"
proof -
  let ?I = "init ''host'' 21 5"
  let ?us = "replicate 1000001 ''a''" and ?ps = "[''b'']"
  have nf: "\<not> found ?I" by (simp add: init_def)
  have "\<forall>c\<in>set (hybrid_combinations None ?us ?ps). \<not> session_ok ?I rejects_all c"
    by (simp add: session_ok_rejects_all)
  from brute_force_hybrid_none [OF fair_in_order _ _ nf this, of 8 1000] obtain att n where
    hyb: "brute_force_hybrid ?I rejects_all in_order None ?us ?ps 1000 8 =
            (Inr None, ?I, \<lparr>pools = n, attempted = att\<rparr>)"
    and att: "mset att = mset (hybrid_combinations None ?us ?ps)" by auto
  from mset_eq_length [OF att] have len: "length att = 1000000"
    by (simp add: hybrid_combinations_cpu)
  have 1: "fst (brute_force_hybrid ?I rejects_all in_order None ?us ?ps 1000 8) = Inr None"
    by (simp add: hyb)
  have 2: "length (attempted (snd (snd
      (brute_force_hybrid ?I rejects_all in_order None ?us ?ps 1000 8)))) = 1000000"
    by (simp add: hyb len)
  have 3: "length (List.product ?us ?ps) = 1000001" by simp
  have 4: "brute_force_cpu
       \<lparr>host = ''host'', port = 21, timeout = 5, found = True, result = Some (''root'', ''toor'')\<rparr>
       rejects_all in_order [''admin''] [''1234''] 10
     = (Inr None,
        \<lparr>host = ''host'', port = 21, timeout = 5, found = True, result = Some (''root'', ''toor'')\<rparr>,
        \<lparr>pools = 1, attempted = []\<rparr>)"
    by (simp add: brute_force_cpu_found)
  have 5: "fst (brute_force_cpu ?I rejects_all in_order [''admin''] [''1234''] 0)
             = Inl ValueError"
    by (simp add: brute_force_cpu_bad_workers)
  have 6: "brute_force_hybrid ?I rejects_all in_order None [''admin''] [''1234''] (- 1) 8
             = (Inr None, ?I, \<lparr>pools = 0, attempted = []\<rparr>)"
    by (simp add: brute_force_hybrid_def batches_neg)
  from 1 2 3 4 5 6 show ?thesis by blast
qed

text \<open>
  C8. A single attempt never raises: whatever call of the session raises, whatever the
  exception, the attempt returns \<^verbatim>\<open>None\<close>. The coordinator's loop then goes on:
  when it comes to a future whose session raised, having read only failures before, it
  reads that future and does with the remaining ones what it would have done with them
  alone. So a search that starts with \<open>found\<close> not set returns the first pair, in the
  order of reading, whose session did not raise, or \<^verbatim>\<open>None\<close> when there is none:
  no exception of a session reaches its caller.
\<close>

theorem try_credentials_never_raises:
  "(\<exists>r. try_credentials self lib u p = Inr r) \<and>
   (ftp_session self lib u p = Inl e \<longrightarrow>
      try_credentials self lib u p = Inr None \<and>
      (\<not> found self \<and> (\<forall>c\<in>set pre. \<not> session_ok self lib c) \<longrightarrow>
         completion_loop self lib (pre @ (u, p) # post) =
           (case completion_loop self lib post of
              (r, s, n) \<Rightarrow> (r, s, length pre + 1 + n)))) \<and>
   (\<not> found self \<and> 1 \<le> mw \<longrightarrow>
      fst (brute_force_cpu self lib sched us ps mw)
        = Inr (find (session_ok self lib) (as_completed sched 0 (List.product us ps)))) \<and>
   (\<not> found self \<and> 1 \<le> mw \<and> 1 \<le> bs \<longrightarrow>
      fst (brute_force_hybrid self lib sched gpu us ps bs mw)
        = Inr (find (session_ok self lib) (hybrid_completion_order sched gpu us ps bs)))"
proof -
  have 1: "\<exists>r. try_credentials self lib u p = Inr r"
    by (simp add: try_credentials_eq)
  have 2: "try_credentials self lib u p = Inr None" if "ftp_session self lib u p = Inl e"
    using that by (simp add: try_credentials_def)
  have 3: "completion_loop self lib (pre @ (u, p) # post) =
             (case completion_loop self lib post of (r, s, n) \<Rightarrow> (r, s, length pre + 1 + n))"
    if raises: "ftp_session self lib u p = Inl e" and nf: "\<not> found self"
      and pre: "\<forall>c\<in>set pre. \<not> session_ok self lib c"
  proof -
    from raises have "\<not> session_ok self lib (u, p)" by (simp add: session_ok_def)
    with pre have "\<forall>c\<in>set (pre @ [(u, p)]). \<not> session_ok self lib c" by simp
    from completion_loop_skips [OF nf this, of post] show ?thesis
      by (cases "completion_loop self lib post") simp
  qed
  have 4: "fst (brute_force_cpu self lib sched us ps mw)
             = Inr (find (session_ok self lib) (as_completed sched 0 (List.product us ps)))"
    if "\<not> found self" "1 \<le> mw"
    using that
    by (cases "find (session_ok self lib) (as_completed sched 0 (List.product us ps))")
       (simp_all add: brute_force_cpu_find)
  have 5: "fst (brute_force_hybrid self lib sched gpu us ps bs mw)
             = Inr (find (session_ok self lib) (hybrid_completion_order sched gpu us ps bs))"
    if "\<not> found self" "1 \<le> mw" "1 \<le> bs"
    using brute_force_hybrid_find [of mw bs self lib sched gpu us ps] that by simp
  from 1 2 3 4 5 show ?thesis by blast
qed

theorem try_credentials_never_raises_witness:
  "ftp_session (init ''host'' 21 5) (faults_except TypeError (''root'', ''admin''))
       ''admin'' ''admin'' = Inl TypeError \<and>
   try_credentials (init ''host'' 21 5) (faults_except TypeError (''root'', ''admin''))
       ''admin'' ''admin'' = Inr None \<and>
   completion_loop (init ''host'' 21 5) (faults_except TypeError (''root'', ''admin''))
       [(''admin'', ''1234''), (''admin'', ''admin''), (''root'', ''1234''), (''root'', ''admin'')]
     = (Inr (Some (''root'', ''admin'')),
        \<lparr>host = ''host'', port = 21, timeout = 5, found = True,
           result = Some (''root'', ''admin'')\<rparr>, 4) \<and>
   \<not> found (init ''host'' 21 5) \<and> (1::int) \<le> 2 \<and> (1::int) \<le> 3 \<and>
   fst (brute_force_cpu (init ''host'' 21 5) (faults_except TypeError (''root'', ''admin''))
          in_order [''admin'', ''root''] [''1234'', ''admin''] 2)
     = Inr (Some (''root'', ''admin'')) \<and>
   fst (brute_force_hybrid (init ''host'' 21 5) (faults_except TypeError (''root'', ''admin''))
          reversed None [''admin'', ''root''] [''1234'', ''admin''] 3 2)
     = Inr (Some (''root'', ''admin''))"
proof -
  let ?I = "init ''host'' 21 5" and ?L = "faults_except TypeError (''root'', ''admin'')"
  let ?us = "[''admin'', ''root'']" and ?ps = "[''1234'', ''admin'']"
  have nf: "\<not> found ?I" by (simp add: init_def)
  have raises: "ftp_session ?I ?L ''admin'' ''admin'' = Inl TypeError"
    by (simp add: ftp_session_def faults_except_def)
  have pre: "\<forall>c\<in>set [(''admin'', ''1234'')]. \<not> session_ok ?I ?L c"
    by (simp add: session_ok_faults_except)
  have post: "completion_loop ?I ?L [(''root'', ''1234''), (''root'', ''admin'')]
      = (Inr (Some (''root'', ''admin'')),
         \<lparr>host = ''host'', port = 21, timeout = 5, found = True,
            result = Some (''root'', ''admin'')\<rparr>, 2)"
    by (simp add: try_credentials_eq session_ok_faults_except init_def)
  have flat: "find (session_ok ?I ?L) (as_completed in_order 0 (List.product ?us ?ps))
      = Some (''root'', ''admin'')"
    by (simp add: in_order_def session_ok_faults_except)
  have batched: "find (session_ok ?I ?L) (hybrid_completion_order reversed None ?us ?ps 3)
      = Some (''root'', ''admin'')"
  proof (rule find_unique)
    have "mset (hybrid_completion_order reversed None ?us ?ps 3)
            = mset (hybrid_combinations None ?us ?ps)"
      by (rule hybrid_completion_order_mset [OF fair_reversed]) simp
    then have "set (hybrid_completion_order reversed None ?us ?ps 3)
            = set (hybrid_combinations None ?us ?ps)"
      by (rule mset_eq_setD)
    then show "(''root'', ''admin'') \<in> set (hybrid_completion_order reversed None ?us ?ps 3)"
      by (simp add: hybrid_combinations_cpu)
    show "session_ok ?I ?L (''root'', ''admin'')" by (simp add: session_ok_faults_except)
    show "\<forall>x\<in>set (hybrid_completion_order reversed None ?us ?ps 3).
            session_ok ?I ?L x \<longrightarrow> x = (''root'', ''admin'')"
      by (simp only: session_ok_faults_except) blast
  qed
  note t = try_credentials_never_raises
             [of ?I ?L "''admin''" "''admin''" TypeError "[(''admin'', ''1234'')]"
                 "[(''root'', ''1234''), (''root'', ''admin'')]" 2 in_order ?us ?ps 3 None]
  note t' = try_credentials_never_raises
             [of ?I ?L "''admin''" "''admin''" TypeError "[(''admin'', ''1234'')]"
                 "[(''root'', ''1234''), (''root'', ''admin'')]" 2 reversed ?us ?ps 3 None]
  note t2 = mp [OF t [THEN conjunct2, THEN conjunct1] raises]
  have a: "try_credentials ?I ?L ''admin'' ''admin'' = Inr None"
    by (rule t2 [THEN conjunct1])
  have b: "completion_loop ?I ?L ([(''admin'', ''1234'')] @ (''admin'', ''admin'')
              # [(''root'', ''1234''), (''root'', ''admin'')])
            = (case completion_loop ?I ?L [(''root'', ''1234''), (''root'', ''admin'')] of
                 (r, s, n) \<Rightarrow> (r, s, length [(''admin'', ''1234'')] + 1 + n))"
    by (rule mp [OF t2 [THEN conjunct2] conjI [OF nf pre]])
  have m2: "(1::int) \<le> 2" and m3: "(1::int) \<le> 3" by simp_all
  have c: "fst (brute_force_cpu ?I ?L in_order ?us ?ps 2)
            = Inr (find (session_ok ?I ?L) (as_completed in_order 0 (List.product ?us ?ps)))"
    by (rule mp [OF t [THEN conjunct2, THEN conjunct2, THEN conjunct1] conjI [OF nf m2]])
  have d: "fst (brute_force_hybrid ?I ?L reversed None ?us ?ps 3 2)
      = Inr (find (session_ok ?I ?L) (hybrid_completion_order reversed None ?us ?ps 3))"
    by (rule mp [OF t' [THEN conjunct2, THEN conjunct2, THEN conjunct2]
                    conjI [OF nf conjI [OF m2 m3]]])
  have b': "completion_loop ?I ?L
       [(''admin'', ''1234''), (''admin'', ''admin''), (''root'', ''1234''), (''root'', ''admin'')]
     = (Inr (Some (''root'', ''admin'')),
        \<lparr>host = ''host'', port = 21, timeout = 5, found = True,
           result = Some (''root'', ''admin'')\<rparr>, 4)"
    using b unfolding post by simp
  have c': "fst (brute_force_cpu ?I ?L in_order ?us ?ps 2) = Inr (Some (''root'', ''admin''))"
    using c unfolding flat .
  have d': "fst (brute_force_hybrid ?I ?L reversed None ?us ?ps 3 2)
      = Inr (Some (''root'', ''admin''))"
    using d unfolding batched .
  from raises a b' nf m2 m3 c' d' show ?thesis by blast
qed




end
